theory Spec2Isabelle
  imports Main "HOL-Library.Word" "HOL-Library.Sublist" "HOL-Library.Multiset"
begin

section \<open>The world the downloader runs in\<close>

text \<open>
  The downloader is a Go program whose observable behaviour is what it does to the file
  system. Files are named by path strings and hold bytes. Every call into the operating
  system can fail for reasons outside the program (permissions, a full disk, a broken
  connection): such a failure is decided by an oracle \<open>faults\<close>, asked with the number
  of the call (a clock that every call advances) and the operation attempted, so that
  every error branch of the source is a branch of the model and can be reached.
  Paths are taken as canonical names: two different strings are two different files.
\<close>

type_synonym byte = "8 word"
type_synonym path = string

datatype osop =
    OpCreate path
  | OpOpen path
  | OpStat path
  | OpRead path
  | OpWrite path
  | OpFlush path
  | OpRemove path
  | OpRename path path
  | OpRemoveAll path

type_synonym faults = "nat \<Rightarrow> osop \<Rightarrow> bool"

datatype event =
    EvSleep int
  | EvFetch nat nat bool

record world =
  files :: "path \<rightharpoonup> byte list"
  clock :: nat
  trace :: "event list"

datatype error =
    ErrNotExist path
  | OSError osop
  | ErrRequest string
  | ErrTransport string
  | ErrBodyRead string
  | HTTPStatus nat
  | TooSmall
  | NoSyncPattern
  | SegmentFailed nat
  | CannotAccess nat error
  | SegmentEmpty nat
  | IntegrityFailed nat error
  | SegmentMissing path
  | RemoveExistingFailed error
  | RenameFailed error
  | ErrTooLong
  | NoSegments
  | DownloadingSegments error
  | MergingSegments error

text \<open>One call into the operating system: ask the oracle, advance the clock.\<close>

definition syscall :: "faults \<Rightarrow> osop \<Rightarrow> world \<Rightarrow> bool \<times> world" where
  "syscall flt op w = (flt (clock w) op, w\<lparr>clock := Suc (clock w)\<rparr>)"

text \<open>\<open>os.Create\<close>: the file exists and is empty afterwards (an existing file is truncated).\<close>

definition os_Create :: "faults \<Rightarrow> path \<Rightarrow> world \<Rightarrow> error option \<times> world" where
  "os_Create flt p w =
     (case syscall flt (OpCreate p) w of
        (True, w1) \<Rightarrow> (Some (OSError (OpCreate p)), w1)
      | (False, w1) \<Rightarrow> (None, w1\<lparr>files := (files w1)(p \<mapsto> [])\<rparr>))"

text \<open>\<open>os.Remove\<close>: fails on a path that does not exist.\<close>

definition os_Remove :: "faults \<Rightarrow> path \<Rightarrow> world \<Rightarrow> error option \<times> world" where
  "os_Remove flt p w =
     (case syscall flt (OpRemove p) w of
        (True, w1) \<Rightarrow> (Some (OSError (OpRemove p)), w1)
      | (False, w1) \<Rightarrow>
          (if files w1 p = None then (Some (ErrNotExist p), w1)
           else (None, w1\<lparr>files := (files w1)(p := None)\<rparr>)))"

text \<open>\<open>os.Rename\<close>: the old name disappears, the new name holds the content, replacing
  whatever was there.\<close>

definition os_Rename :: "faults \<Rightarrow> path \<Rightarrow> path \<Rightarrow> world \<Rightarrow> error option \<times> world" where
  "os_Rename flt old new w =
     (case syscall flt (OpRename old new) w of
        (True, w1) \<Rightarrow> (Some (OSError (OpRename old new)), w1)
      | (False, w1) \<Rightarrow>
          (case files w1 old of
             None \<Rightarrow> (Some (ErrNotExist old), w1)
           | Some c \<Rightarrow> (None, w1\<lparr>files := ((files w1)(old := None))(new \<mapsto> c)\<rparr>)))"

text \<open>\<open>os.Stat\<close>, read for the size of the file only.\<close>

definition os_Stat :: "faults \<Rightarrow> path \<Rightarrow> world \<Rightarrow> (error + nat) \<times> world" where
  "os_Stat flt p w =
     (case syscall flt (OpStat p) w of
        (True, w1) \<Rightarrow> (Inl (OSError (OpStat p)), w1)
      | (False, w1) \<Rightarrow>
          (case files w1 p of
             None \<Rightarrow> (Inl (ErrNotExist p), w1)
           | Some c \<Rightarrow> (Inr (length c), w1)))"

text \<open>\<open>os.Open\<close> for reading: the content of the file at that moment.\<close>

definition os_Open :: "faults \<Rightarrow> path \<Rightarrow> world \<Rightarrow> (error + byte list) \<times> world" where
  "os_Open flt p w =
     (case syscall flt (OpOpen p) w of
        (True, w1) \<Rightarrow> (Inl (OSError (OpOpen p)), w1)
      | (False, w1) \<Rightarrow>
          (case files w1 p of
             None \<Rightarrow> (Inl (ErrNotExist p), w1)
           | Some c \<Rightarrow> (Inr c, w1)))"

definition os_IsNotExist :: "error \<Rightarrow> bool" where
  "os_IsNotExist e = (case e of ErrNotExist p \<Rightarrow> True | _ \<Rightarrow> False)"

section \<open>The integrity validator (internal/validator/ts_validator.go)\<close>

text \<open>
  \<open>ValidateTS\<close> opens the file, reads once into a buffer of \<open>188*3\<close> bytes and walks the
  buffer in steps of 188. \<open>file.Read\<close> on a regular file fills the buffer as far as the
  file goes: it returns \<open>n = min (188*3) (size)\<close>, with \<open>io.EOF\<close> when \<open>n = 0\<close>, which the
  source lets through.
\<close>

definition headerSize :: nat where
  "headerSize = 188 * 3"

text \<open>The \<open>for i := 0; i < n; i += 188\<close> loop, counting into \<open>validSyncBytes\<close>.\<close>

function syncLoop :: "nat \<Rightarrow> nat \<Rightarrow> byte list \<Rightarrow> nat \<Rightarrow> nat" where
  "syncLoop i n header validSyncBytes =
     (if i < n
      then syncLoop (i + 188) n header
             (if i + 188 \<le> n \<and> header ! i = 0x47 then validSyncBytes + 1 else validSyncBytes)
      else validSyncBytes)"
  by pat_completeness auto
termination
  by (relation "measure (\<lambda>(i, n, header, v). n - i)") auto

declare syncLoop.simps [simp del]

definition file_Read :: "faults \<Rightarrow> path \<Rightarrow> nat \<Rightarrow> byte list \<Rightarrow> world \<Rightarrow> (error + byte list) \<times> world" where
  "file_Read flt p cap content w =
     (case syscall flt (OpRead p) w of
        (True, w1) \<Rightarrow> (Inl (OSError (OpRead p)), w1)
      | (False, w1) \<Rightarrow> (Inr (take cap content), w1))"

definition ValidateTS :: "faults \<Rightarrow> path \<Rightarrow> world \<Rightarrow> error option \<times> world" where
  "ValidateTS flt fileName w =
     (case os_Open flt fileName w of
        (Inl err, w1) \<Rightarrow> (Some err, w1)
      | (Inr content, w1) \<Rightarrow>
          (case file_Read flt fileName headerSize content w1 of
             (Inl err, w2) \<Rightarrow> (Some err, w2)
           | (Inr got, w2) \<Rightarrow>
               (let n = length got;
                    header = got @ replicate (headerSize - n) 0
                in if n < 188 then (Some TooSmall, w2)
                   else if syncLoop 0 n header 0 = 0 then (Some NoSyncPattern, w2)
                   else (None, w2))))"

section \<open>The playlist parser (internal/downloader/parser.go, pkg/utils/http.go)\<close>



















section \<open>Buffered writing and the segment fetcher (internal/downloader/downloader.go)\<close>

text \<open>
  A \<open>bufio.Writer\<close> on a file keeps written bytes pending until they reach the file; after
  \<open>Flush\<close> all of them are in the file, in the order written. The model keeps the pending
  bytes as a list and moves them into the file at \<open>Flush\<close>.
\<close>

definition bufio_Write :: "faults \<Rightarrow> path \<Rightarrow> byte list \<Rightarrow> byte list \<Rightarrow> world \<Rightarrow> (error + byte list) \<times> world" where
  "bufio_Write flt p bytes pending w =
     (case syscall flt (OpWrite p) w of
        (True, w1) \<Rightarrow> (Inl (OSError (OpWrite p)), w1)
      | (False, w1) \<Rightarrow> (Inr (pending @ bytes), w1))"

definition bufio_Flush :: "faults \<Rightarrow> path \<Rightarrow> byte list \<Rightarrow> world \<Rightarrow> error option \<times> world" where
  "bufio_Flush flt p pending w =
     (case syscall flt (OpFlush p) w of
        (True, w1) \<Rightarrow> (Some (OSError (OpFlush p)), w1)
      | (False, w1) \<Rightarrow>
          (case files w1 p of
             None \<Rightarrow> (None, w1)
           | Some c \<Rightarrow> (None, w1\<lparr>files := (files w1)(p \<mapsto> c @ pending)\<rparr>)))"




section \<open>The merger (\<open>mergeSegments\<close>)\<close>

record config =
  URL :: string
  OutputDir :: string
  Output :: string
  MaxRetry :: int
  Threads :: int
  Timeout :: int
  ValidateFiles :: bool

definition downloadBufferSize :: nat where
  "downloadBufferSize = 4 * 1024 * 1024"

definition mergeBufferSize :: nat where
  "mergeBufferSize = 1 * 1024 * 1024"

text \<open>The inner \<open>for\<close> loop: read up to \<open>mergeBufferSize\<close> bytes, stop at \<open>n = 0\<close>, write
  what was read. \<open>rest\<close> is what the reader has not delivered yet.\<close>

function copyLoop :: "faults \<Rightarrow> path \<Rightarrow> path \<Rightarrow> byte list \<Rightarrow> byte list \<Rightarrow> world \<Rightarrow> (error + byte list) \<times> world" where
  "copyLoop flt src dst rest pending w =
     (case file_Read flt src mergeBufferSize rest w of
        (Inl err, w1) \<Rightarrow> (Inl err, w1)
      | (Inr chunk, w1) \<Rightarrow>
          if length chunk = 0 then (Inr pending, w1)
          else
            (case bufio_Write flt dst chunk pending w1 of
               (Inl err, w2) \<Rightarrow> (Inl err, w2)
             | (Inr pending', w2) \<Rightarrow> copyLoop flt src dst (drop (length chunk) rest) pending' w2))"
  by pat_completeness auto
termination
  by (relation "measure (\<lambda>(flt, src, dst, rest, pending, w). length rest)")
     (auto simp: file_Read_def syscall_def split: if_splits bool.splits)

declare copyLoop.simps [simp del]

text \<open>The body of the outer loop, for one segment file.\<close>

definition mergeOne :: "faults \<Rightarrow> path \<Rightarrow> path \<Rightarrow> world \<Rightarrow> error option \<times> world" where
  "mergeOne flt tempOutputFile file w =
     (case os_Stat flt file w of
        (st, w1) \<Rightarrow>
          if (case st of Inl err \<Rightarrow> os_IsNotExist err | Inr sz \<Rightarrow> False)
          then (Some (SegmentMissing file), snd (os_Remove flt tempOutputFile w1))
          else
            (case os_Open flt file w1 of
               (Inl err, w2) \<Rightarrow> (Some err, snd (os_Remove flt tempOutputFile w2))
             | (Inr content, w2) \<Rightarrow>
                 (case copyLoop flt file tempOutputFile content [] w2 of
                    (Inl err, w3) \<Rightarrow> (Some err, snd (os_Remove flt tempOutputFile w3))
                  | (Inr pending, w3) \<Rightarrow>
                      (case bufio_Flush flt tempOutputFile pending w3 of
                         (Some err, w4) \<Rightarrow> (Some err, snd (os_Remove flt tempOutputFile w4))
                       | (None, w4) \<Rightarrow> (None, w4)))))"

fun mergeLoop :: "faults \<Rightarrow> path \<Rightarrow> path list \<Rightarrow> world \<Rightarrow> error option \<times> world" where
  "mergeLoop flt tempOutputFile [] w = (None, w)"
| "mergeLoop flt tempOutputFile (file # rest) w =
     (case mergeOne flt tempOutputFile file w of
        (Some err, w1) \<Rightarrow> (Some err, w1)
      | (None, w1) \<Rightarrow> mergeLoop flt tempOutputFile rest w1)"

text \<open>The end of \<open>mergeSegments\<close>, in two blocks: an output file that exists already is
  removed (\<open>os.Stat\<close> without error, then \<open>os.Remove\<close>), and the temporary file is renamed
  into its place.\<close>

definition removeExistingOutput :: "faults \<Rightarrow> path \<Rightarrow> path \<Rightarrow> world \<Rightarrow> error option \<times> world" where
  "removeExistingOutput flt tempOutputFile output w =
     (case os_Stat flt output w of
        (Inr sz, w1) \<Rightarrow>
          (case os_Remove flt output w1 of
             (Some err, w2) \<Rightarrow>
               (Some (RemoveExistingFailed err), snd (os_Remove flt tempOutputFile w2))
           | (None, w2) \<Rightarrow> (None, w2))
      | (Inl e, w1) \<Rightarrow> (None, w1))"

definition renameIntoPlace :: "faults \<Rightarrow> path \<Rightarrow> path \<Rightarrow> world \<Rightarrow> error option \<times> world" where
  "renameIntoPlace flt tempOutputFile output w =
     (case os_Rename flt tempOutputFile output w of
        (Some err, w1) \<Rightarrow> (Some (RenameFailed err), snd (os_Remove flt tempOutputFile w1))
      | (None, w1) \<Rightarrow> (None, w1))"

definition mergeSegments :: "faults \<Rightarrow> config \<Rightarrow> path list \<Rightarrow> world \<Rightarrow> error option \<times> world" where
  "mergeSegments flt cfg segmentFiles w =
     (let tempOutputFile = Output cfg @ ''.tmp''
      in case os_Create flt tempOutputFile w of
           (Some err, w1) \<Rightarrow> (Some err, w1)
         | (None, w1) \<Rightarrow>
             (case mergeLoop flt tempOutputFile segmentFiles w1 of
                (Some err, w2) \<Rightarrow> (Some err, w2)
              | (None, w2) \<Rightarrow>
                  (case bufio_Flush flt tempOutputFile [] w2 of
                     (Some err, w3) \<Rightarrow> (Some err, snd (os_Remove flt tempOutputFile w3))
                   | (None, w3) \<Rightarrow>
                       (case removeExistingOutput flt tempOutputFile (Output cfg) w3 of
                          (Some err, w4) \<Rightarrow> (Some err, w4)
                        | (None, w4) \<Rightarrow> renameIntoPlace flt tempOutputFile (Output cfg) w4))))"
section \<open>Example environments\<close>





section \<open>Properties of the validator\<close>

lemma syncLoop_pos:
  "0 < syncLoop i n header v \<longleftrightarrow>
     0 < v \<or> (\<exists>j. i + 188 * j + 188 \<le> n \<and> header ! (i + 188 * j) = 0x47)"
proof (induction i n header v rule: syncLoop.induct)
  case (1 i n header v)
  show ?case
  proof (cases "i < n")
    case False
    then show ?thesis by (subst syncLoop.simps) auto
  next
    case True
    let ?v' = "if i + 188 \<le> n \<and> header ! i = 0x47 then v + 1 else v"
    have step: "syncLoop i n header v = syncLoop (i + 188) n header ?v'"
      using True by (subst syncLoop.simps) simp
    have ih: "0 < syncLoop (i + 188) n header ?v' \<longleftrightarrow>
        0 < ?v' \<or> (\<exists>j. i + 188 + 188 * j + 188 \<le> n \<and> header ! (i + 188 + 188 * j) = 0x47)"
      using "1.IH" [OF True] by simp
    have split: "(\<exists>j. i + 188 * j + 188 \<le> n \<and> header ! (i + 188 * j) = 0x47) \<longleftrightarrow>
        (i + 188 \<le> n \<and> header ! i = 0x47) \<or>
        (\<exists>j. i + 188 + 188 * j + 188 \<le> n \<and> header ! (i + 188 + 188 * j) = 0x47)"
      (is "?L \<longleftrightarrow> ?A \<or> ?R")
    proof
      assume ?L
      then obtain j where j: "i + 188 * j + 188 \<le> n" "header ! (i + 188 * j) = 0x47" by blast
      show "?A \<or> ?R"
      proof (cases j)
        case 0
        with j show ?thesis by simp
      next
        case (Suc k)
        with j have "i + 188 + 188 * k + 188 \<le> n \<and> header ! (i + 188 + 188 * k) = 0x47"
          by (simp add: algebra_simps)
        then show ?thesis by blast
      qed
    next
      assume "?A \<or> ?R"
      then show ?L
      proof
        assume ?A
        then have "i + 188 * 0 + 188 \<le> n \<and> header ! (i + 188 * 0) = 0x47" by simp
        then show ?L by blast
      next
        assume ?R
        then obtain k where "i + 188 + 188 * k + 188 \<le> n" "header ! (i + 188 + 188 * k) = 0x47"
          by blast
        then have "i + 188 * Suc k + 188 \<le> n \<and> header ! (i + 188 * Suc k) = 0x47"
          by (simp add: algebra_simps)
        then show ?L by blast
      qed
    qed
    show ?thesis
      unfolding step ih split by auto
  qed
qed

text \<open>
  C3. When the file can be opened and read: with fewer than 188 bytes the validator
  answers "too small"; otherwise it accepts exactly when one of the complete 188-byte
  windows inside the first \<open>3 * 188\<close> bytes starts with \<open>0x47\<close>, and answers
  "no valid sync pattern" when none does.
\<close>

theorem ValidateTS_windows:
  assumes present: "files w fileName = Some content"
    and opens: "\<not> flt (clock w) (OpOpen fileName)"
    and reads: "\<not> flt (Suc (clock w)) (OpRead fileName)"
  shows "fst (ValidateTS flt fileName w) =
           (if length content < 188 then Some TooSmall
            else if \<exists>k<3. (k + 1) * 188 \<le> length content \<and> content ! (k * 188) = 0x47
                 then None
                 else Some NoSyncPattern)"
proof -
  let ?got = "take headerSize content"
  let ?n = "length ?got"
  let ?header = "?got @ replicate (headerSize - ?n) 0"
  have run: "fst (ValidateTS flt fileName w) =
      (if ?n < 188 then Some TooSmall
       else if syncLoop 0 ?n ?header 0 = 0 then Some NoSyncPattern else None)"
    using present opens reads
    by (simp add: ValidateTS_def os_Open_def file_Read_def syscall_def Let_def)
  have small: "?n < 188 \<longleftrightarrow> length content < 188"
    by (auto simp: headerSize_def)
  have windows: "(\<exists>j. 0 + 188 * j + 188 \<le> ?n \<and> ?header ! (0 + 188 * j) = 0x47) \<longleftrightarrow>
      (\<exists>k<3. (k + 1) * 188 \<le> length content \<and> content ! (k * 188) = 0x47)"
    (is "?L \<longleftrightarrow> ?R")
  proof
    assume ?L
    then obtain j where j: "188 * j + 188 \<le> ?n" "?header ! (188 * j) = 0x47" by auto
    from j(1) have "188 * j + 188 \<le> headerSize" "188 * j + 188 \<le> length content" by simp_all
    then have "j < 3" "(j + 1) * 188 \<le> length content" by (simp_all add: headerSize_def)
    moreover have "?header ! (188 * j) = content ! (j * 188)"
      using j(1) by (simp add: nth_append mult.commute)
    ultimately show ?R using j(2) by auto
  next
    assume ?R
    then obtain k where k: "k < 3" "(k + 1) * 188 \<le> length content" "content ! (k * 188) = 0x47"
      by blast
    then have le: "188 * k + 188 \<le> ?n" by (simp add: headerSize_def)
    then have "?header ! (188 * k) = content ! (k * 188)"
      by (simp add: nth_append mult.commute)
    with k(3) le show ?L by auto
  qed
  have "syncLoop 0 ?n ?header 0 = 0 \<longleftrightarrow> \<not> ?R"
    using syncLoop_pos [of 0 ?n ?header 0] windows by auto
  then show ?thesis
    unfolding run small by auto
qed

theorem ValidateTS_windows_witness:
  "fst (ValidateTS (\<lambda>t op. False) ''s.ts''
          \<lparr>files = [''s.ts'' \<mapsto> replicate 187 0x47], clock = 0, trace = []\<rparr>) = Some TooSmall
   \<and> fst (ValidateTS (\<lambda>t op. False) ''s.ts''
          \<lparr>files = [''s.ts'' \<mapsto> 0x47 # replicate 563 0], clock = 0, trace = []\<rparr>) = None
   \<and> fst (ValidateTS (\<lambda>t op. False) ''s.ts''
          \<lparr>files = [''s.ts'' \<mapsto> replicate 564 0], clock = 0, trace = []\<rparr>) = Some NoSyncPattern"
proof -
  have a: "fst (ValidateTS (\<lambda>t op. False) ''s.ts''
          \<lparr>files = [''s.ts'' \<mapsto> replicate 187 0x47], clock = 0, trace = []\<rparr>) = Some TooSmall"
    by (subst ValidateTS_windows [where content = "replicate 187 0x47"]) simp_all
  have "\<exists>k<3. (k + 1) * 188 \<le> length ((0x47::byte) # replicate 563 0)
          \<and> ((0x47::byte) # replicate 563 0) ! (k * 188) = 0x47"
    by (rule exI [of _ 0]) simp
  then have b: "fst (ValidateTS (\<lambda>t op. False) ''s.ts''
          \<lparr>files = [''s.ts'' \<mapsto> 0x47 # replicate 563 0], clock = 0, trace = []\<rparr>) = None"
    by (subst ValidateTS_windows [where content = "0x47 # replicate 563 0"]) simp_all
  have "\<not> (\<exists>k<3. (k + 1) * 188 \<le> length (replicate 564 (0::byte))
          \<and> replicate 564 (0::byte) ! (k * 188) = 0x47)"
    by auto
  then have c: "fst (ValidateTS (\<lambda>t op. False) ''s.ts''
          \<lparr>files = [''s.ts'' \<mapsto> replicate 564 0], clock = 0, trace = []\<rparr>) = Some NoSyncPattern"
    by (subst ValidateTS_windows [where content = "replicate 564 0"]) simp_all
  from a b c show ?thesis by blast
qed

section \<open>Properties of the playlist parser\<close>





section \<open>What each call does to the files\<close>

lemma tmp_neq [simp]: "fileName @ ''.tmp'' \<noteq> fileName" "fileName \<noteq> fileName @ ''.tmp''"
  by simp_all

lemma os_Create_spec:
  "os_Create flt p w = (e, w') \<Longrightarrow>
     trace w' = trace w \<and>
     ((e = None \<and> files w' = (files w)(p \<mapsto> []))
      \<or> (e \<noteq> None \<and> files w' = files w \<and> (\<exists>t. flt t (OpCreate p))))"
  by (auto simp: os_Create_def syscall_def split: bool.splits)

lemma os_Remove_spec:
  "os_Remove flt p w = (e, w') \<Longrightarrow>
     trace w' = trace w \<and>
     ((e = None \<and> files w p \<noteq> None \<and> files w' = (files w)(p := None))
      \<or> (e \<noteq> None \<and> files w' = files w \<and> (files w p = None \<or> (\<exists>t. flt t (OpRemove p)))))"
  by (auto simp: os_Remove_def syscall_def split: bool.splits if_splits)

lemma os_Rename_spec:
  "os_Rename flt old new w = (e, w') \<Longrightarrow>
     trace w' = trace w \<and>
     ((e = None \<and> (\<exists>c. files w old = Some c \<and> files w' = ((files w)(old := None))(new \<mapsto> c)))
      \<or> (e \<noteq> None \<and> files w' = files w \<and>
          (files w old = None \<or> (\<exists>t. flt t (OpRename old new)))))"
  by (auto simp: os_Rename_def syscall_def split: bool.splits option.splits)

lemma os_Stat_spec:
  "os_Stat flt p w = (r, w') \<Longrightarrow>
     trace w' = trace w \<and> files w' = files w \<and>
     (case r of
        Inr n \<Rightarrow> (\<exists>c. files w p = Some c \<and> n = length c)
      | Inl err \<Rightarrow> (os_IsNotExist err \<longleftrightarrow> err = ErrNotExist p) \<and>
                    (err = ErrNotExist p \<longrightarrow> files w p = None) \<and>
                    (err \<noteq> ErrNotExist p \<longrightarrow> (\<exists>t. flt t (OpStat p))))"
  by (auto simp: os_Stat_def syscall_def os_IsNotExist_def split: bool.splits option.splits)

lemma os_Open_spec:
  "os_Open flt p w = (r, w') \<Longrightarrow>
     trace w' = trace w \<and> files w' = files w \<and>
     (case r of
        Inr c \<Rightarrow> files w p = Some c
      | Inl err \<Rightarrow> files w p = None \<or> (\<exists>t. flt t (OpOpen p)))"
  by (auto simp: os_Open_def syscall_def split: bool.splits option.splits)

lemma file_Read_spec:
  "file_Read flt p cap content w = (r, w') \<Longrightarrow>
     trace w' = trace w \<and> files w' = files w \<and>
     (case r of Inr got \<Rightarrow> got = take cap content | Inl err \<Rightarrow> (\<exists>t. flt t (OpRead p)))"
  by (auto simp: file_Read_def syscall_def split: bool.splits)

lemma bufio_Write_spec:
  "bufio_Write flt p bytes pending w = (r, w') \<Longrightarrow>
     trace w' = trace w \<and> files w' = files w \<and>
     (case r of Inr pending' \<Rightarrow> pending' = pending @ bytes | Inl err \<Rightarrow> (\<exists>t. flt t (OpWrite p)))"
  by (auto simp: bufio_Write_def syscall_def split: bool.splits)

lemma bufio_Flush_spec:
  "bufio_Flush flt p pending w = (e, w') \<Longrightarrow>
     trace w' = trace w \<and>
     ((e = None \<and> files w' = (case files w p of None \<Rightarrow> files w
                                | Some c \<Rightarrow> (files w)(p \<mapsto> c @ pending)))
      \<or> (e \<noteq> None \<and> files w' = files w \<and> (\<exists>t. flt t (OpFlush p))))"
  by (auto simp: bufio_Flush_def syscall_def split: bool.splits option.splits)


lemma os_Remove_trace [simp]: "trace (snd (os_Remove flt p w)) = trace w"
  by (simp add: os_Remove_def syscall_def split: bool.splits)

lemma os_Remove_other [simp]: "q \<noteq> p \<Longrightarrow> files (snd (os_Remove flt p w)) q = files w q"
  by (simp add: os_Remove_def syscall_def split: bool.splits)

lemma os_Remove_same:
  "files (snd (os_Remove flt p w)) p = None \<or>
   (files (snd (os_Remove flt p w)) = files w \<and> (\<exists>t. flt t (OpRemove p)))"
  by (auto simp: os_Remove_def syscall_def split: bool.splits)

lemma os_Remove_gone [simp]:
  "\<forall>t. \<not> flt t (OpRemove p) \<Longrightarrow> files (snd (os_Remove flt p w)) p = None"
  using os_Remove_same [of flt p w] by auto


section \<open>Properties of the segment fetcher\<close>





section \<open>Properties of the merger\<close>

lemma copyLoop_spec:
  "copyLoop flt src dst rest pending w = (r, w') \<Longrightarrow>
     trace w' = trace w \<and> files w' = files w \<and>
     (case r of Inr pending' \<Rightarrow> pending' = pending @ rest | Inl err \<Rightarrow> (\<exists>t op. flt t op))"
proof (induction flt src dst rest pending w arbitrary: r w' rule: copyLoop.induct)
  case (1 flt src dst rest pending w)
  obtain got w1 where rd: "file_Read flt src mergeBufferSize rest w = (got, w1)"
    by (cases "file_Read flt src mergeBufferSize rest w")
  note rds = file_Read_spec [OF rd]
  show ?case
  proof (cases got)
    case (Inl err)
    with "1.prems" rd rds show ?thesis
      by (subst (asm) copyLoop.simps) (auto; blast)
  next
    case (Inr chunk)
    with rds have chunk: "chunk = take mergeBufferSize rest" by simp
    show ?thesis
    proof (cases "length chunk = 0")
      case True
      then have "rest = []" using chunk by (auto simp: mergeBufferSize_def min_def split: if_splits)
      with "1.prems" rd rds Inr True show ?thesis
        by (subst (asm) copyLoop.simps) (auto; blast)
    next
      case False
      obtain wr w2 where wr: "bufio_Write flt dst chunk pending w1 = (wr, w2)"
        by (cases "bufio_Write flt dst chunk pending w1")
      note wrs = bufio_Write_spec [OF wr]
      show ?thesis
      proof (cases wr)
        case (Inl err)
        with "1.prems" rd rds Inr False wr wrs show ?thesis
          by (subst (asm) copyLoop.simps) (auto; blast)
      next
        case pend: (Inr pending')
        with "1.prems" rd Inr False wr
        have rec: "copyLoop flt src dst (drop (length chunk) rest) pending' w2 = (r, w')"
          by (subst (asm) copyLoop.simps) simp
        have glue: "pending' @ drop (length chunk) rest = pending @ rest"
          using wrs pend chunk by (simp add: min_def)
        from "1.IH" [OF rd [symmetric] Inr False wr [symmetric] pend rec] rds wrs glue
        show ?thesis by (auto split: sum.splits; blast)
      qed
    qed
  qed
qed

lemma mergeOne_spec:
  "mergeOne flt tmp file w = (e, w') \<Longrightarrow>
     trace w' = trace w \<and>
     (\<forall>p. p \<noteq> tmp \<longrightarrow> files w' p = files w p) \<and>
     (e = None \<longrightarrow>
        (\<exists>c. files w file = Some c \<and>
             files w' tmp = (case files w tmp of None \<Rightarrow> None | Some a \<Rightarrow> Some (a @ c)))) \<and>
     (e \<noteq> None \<longrightarrow>
        (files w file = None \<or> (\<exists>t op. flt t op)) \<and>
        ((\<forall>t. \<not> flt t (OpRemove tmp)) \<longrightarrow> files w' tmp = None))"
  unfolding mergeOne_def
  by (auto split: prod.splits sum.splits option.splits if_splits
        dest!: os_Stat_spec os_Open_spec copyLoop_spec bufio_Flush_spec; blast)

lemma mergeLoop_spec:
  "mergeLoop flt tmp fs w = (e, w') \<Longrightarrow>
     trace w' = trace w \<and>
     (\<forall>p. p \<noteq> tmp \<longrightarrow> files w' p = files w p) \<and>
     (e = None \<longrightarrow> tmp \<notin> set fs \<longrightarrow>
        (\<forall>f \<in> set fs. files w f \<noteq> None) \<and>
        files w' tmp = (case files w tmp of None \<Rightarrow> None
                        | Some a \<Rightarrow> Some (a @ concat (map (\<lambda>f. the (files w f)) fs)))) \<and>
     (e \<noteq> None \<longrightarrow>
        (tmp \<notin> set fs \<longrightarrow> (\<exists>f \<in> set fs. files w f = None) \<or> (\<exists>t op. flt t op)) \<and>
        ((\<forall>t. \<not> flt t (OpRemove tmp)) \<longrightarrow> files w' tmp = None))"
proof (induction fs arbitrary: w)
  case Nil
  then show ?case by (auto split: option.splits)
next
  case (Cons seg rest)
  obtain e1 w1 where one: "mergeOne flt tmp seg w = (e1, w1)"
    by (cases "mergeOne flt tmp seg w")
  note ones = mergeOne_spec [OF one]
  show ?case
  proof (cases e1)
    case (Some err)
    with Cons.prems one have "e = Some err" "w' = w1" by simp_all
    with ones Some show ?thesis by auto
  next
    case None
    with Cons.prems one have rec: "mergeLoop flt tmp rest w1 = (e, w')" by simp
    note recs = Cons.IH [OF rec]
    from ones None obtain c where c: "files w seg = Some c"
      and grown: "files w1 tmp = (case files w tmp of None \<Rightarrow> None | Some a \<Rightarrow> Some (a @ c))"
      by auto
    have same: "\<And>p. p \<noteq> tmp \<Longrightarrow> files w1 p = files w p"
      using ones by simp
    have frame: "trace w' = trace w \<and> (\<forall>p. p \<noteq> tmp \<longrightarrow> files w' p = files w p)"
      using recs ones by simp
    have ok: "files w' tmp = (case files w tmp of None \<Rightarrow> None
                        | Some a \<Rightarrow> Some (a @ concat (map (\<lambda>f. the (files w f)) (seg # rest))))"
      and all: "\<forall>f \<in> set (seg # rest). files w f \<noteq> None"
      if "e = None" "tmp \<notin> set (seg # rest)"
    proof -
      from that have out: "tmp \<notin> set rest" by simp
      have eq: "map (\<lambda>f. the (files w1 f)) rest = map (\<lambda>f. the (files w f)) rest"
      proof (rule map_cong [OF refl])
        fix f assume "f \<in> set rest"
        with out have "f \<noteq> tmp" by auto
        then show "the (files w1 f) = the (files w f)" by (simp add: same)
      qed
      from recs that out
      have "files w' tmp = (case files w1 tmp of None \<Rightarrow> None
                        | Some a \<Rightarrow> Some (a @ concat (map (\<lambda>f. the (files w1 f)) rest)))"
        by simp
      then show "files w' tmp = (case files w tmp of None \<Rightarrow> None
                        | Some a \<Rightarrow> Some (a @ concat (map (\<lambda>f. the (files w f)) (seg # rest))))"
        unfolding eq grown using c by (simp split: option.splits)
      have same_rest: "files w1 f = files w f" if "f \<in> set rest" for f
      proof -
        from that out have "f \<noteq> tmp" by auto
        then show ?thesis by (rule same)
      qed
      from recs that out have "\<forall>f \<in> set rest. files w1 f \<noteq> None" by simp
      then have "\<forall>f \<in> set rest. files w f \<noteq> None"
        using same_rest by metis
      with c show "\<forall>f \<in> set (seg # rest). files w f \<noteq> None"
        by simp
    qed
    have bad: "(\<exists>f \<in> set (seg # rest). files w f = None) \<or> (\<exists>t op. flt t op)"
      if "e \<noteq> None" "tmp \<notin> set (seg # rest)"
    proof -
      from that have out: "tmp \<notin> set rest" by simp
      have same_rest: "files w1 f = files w f" if "f \<in> set rest" for f
      proof -
        from that out have "f \<noteq> tmp" by auto
        then show ?thesis by (rule same)
      qed
      from recs that out have "(\<exists>f \<in> set rest. files w1 f = None) \<or> (\<exists>t op. flt t op)"
        by simp
      then have "(\<exists>f \<in> set rest. files w f = None) \<or> (\<exists>t op. flt t op)"
        using same_rest by metis
      then show ?thesis by auto
    qed
    have gone: "files w' tmp = None" if "e \<noteq> None" "\<forall>t. \<not> flt t (OpRemove tmp)"
      using recs that by simp
    from frame ok all bad gone show ?thesis by blast
  qed
qed

lemma removeExistingOutput_spec:
  "removeExistingOutput flt tmp out w = (e, w') \<Longrightarrow> tmp \<noteq> out \<Longrightarrow>
     trace w' = trace w \<and>
     (\<forall>p. p \<noteq> tmp \<and> p \<noteq> out \<longrightarrow> files w' p = files w p) \<and>
     (e = None \<longrightarrow> files w' tmp = files w tmp \<and>
                   (files w' out = None \<or> files w' out = files w out)) \<and>
     (e \<noteq> None \<longrightarrow> files w' out = files w out \<and> (\<exists>t op. flt t op) \<and>
                   ((\<forall>t. \<not> flt t (OpRemove tmp)) \<longrightarrow> files w' tmp = None))"
  unfolding removeExistingOutput_def
  by (auto split: prod.splits option.splits sum.splits dest!: os_Stat_spec os_Remove_spec; blast)

lemma renameIntoPlace_spec:
  "renameIntoPlace flt tmp out w = (e, w') \<Longrightarrow> tmp \<noteq> out \<Longrightarrow>
     trace w' = trace w \<and>
     (\<forall>p. p \<noteq> tmp \<and> p \<noteq> out \<longrightarrow> files w' p = files w p) \<and>
     (e = None \<longrightarrow> files w' out = files w tmp \<and> files w tmp \<noteq> None \<and> files w' tmp = None) \<and>
     (e \<noteq> None \<longrightarrow> files w' out = files w out \<and>
                   (files w tmp = None \<or> (\<exists>t op. flt t op)) \<and>
                   ((\<forall>t. \<not> flt t (OpRemove tmp)) \<longrightarrow> files w' tmp = None))"
  unfolding renameIntoPlace_def
  by (auto split: prod.splits option.splits dest!: os_Rename_spec; blast)

lemma mergeSegments_spec:
  "mergeSegments flt cfg fs w = (e, w') \<Longrightarrow>
     trace w' = trace w \<and>
     (\<forall>p. p \<noteq> Output cfg @ ''.tmp'' \<and> p \<noteq> Output cfg \<longrightarrow> files w' p = files w p) \<and>
     (e = None \<longrightarrow> Output cfg @ ''.tmp'' \<notin> set fs \<longrightarrow>
        (\<forall>f \<in> set fs. files w f \<noteq> None) \<and>
        files w' (Output cfg) = Some (concat (map (\<lambda>f. the (files w f)) fs)) \<and>
        files w' (Output cfg @ ''.tmp'') = None) \<and>
     (e \<noteq> None \<longrightarrow>
        (files w' (Output cfg) = files w (Output cfg) \<or> files w' (Output cfg) = None) \<and>
        (Output cfg @ ''.tmp'' \<notin> set fs \<longrightarrow>
           (\<exists>f \<in> set fs. files w f = None) \<or> (\<exists>t op. flt t op)) \<and>
        ((\<forall>t. \<not> flt t (OpRemove (Output cfg @ ''.tmp''))) \<longrightarrow>
           files w' (Output cfg @ ''.tmp'') = None \<or> files w' = files w))"
proof -
  assume run: "mergeSegments flt cfg fs w = (e, w')"
  let ?tmp = "Output cfg @ ''.tmp''"
  let ?out = "Output cfg"
  have ne: "?tmp \<noteq> ?out" by simp
  obtain e1 w1 where cr: "os_Create flt ?tmp w = (e1, w1)" by (cases "os_Create flt ?tmp w")
  note crs = os_Create_spec [OF cr]
  show ?thesis
  proof (cases e1)
    case (Some err)
    with run cr have "e = Some err" "w' = w1" by (simp_all add: mergeSegments_def Let_def)
    with crs Some show ?thesis by (auto; blast)
  next
    case None
    with crs have f1: "files w1 = (files w)(?tmp \<mapsto> [])" and t1: "trace w1 = trace w" by auto
    obtain e2 w2 where lp: "mergeLoop flt ?tmp fs w1 = (e2, w2)"
      by (cases "mergeLoop flt ?tmp fs w1")
    note lps = mergeLoop_spec [OF lp]
    have same1: "files w1 p = files w p" if "p \<noteq> ?tmp" for p
      using f1 that by simp
    have same2: "files w2 p = files w p" if "p \<noteq> ?tmp" for p
      using lps same1 that by simp
    have t2: "trace w2 = trace w" using lps t1 by simp
    have names: "map (\<lambda>f. the (files w1 f)) fs = map (\<lambda>f. the (files w f)) fs"
      and exist: "(\<forall>f \<in> set fs. files w1 f \<noteq> None) \<longleftrightarrow> (\<forall>f \<in> set fs. files w f \<noteq> None)"
      if "?tmp \<notin> set fs"
    proof -
      have eq: "files w1 f = files w f" if "f \<in> set fs" for f
      proof -
        from that \<open>?tmp \<notin> set fs\<close> have "f \<noteq> ?tmp" by auto
        then show ?thesis by (rule same1)
      qed
      show "map (\<lambda>f. the (files w1 f)) fs = map (\<lambda>f. the (files w f)) fs"
        by (rule map_cong [OF refl]) (simp add: eq)
      show "(\<forall>f \<in> set fs. files w1 f \<noteq> None) \<longleftrightarrow> (\<forall>f \<in> set fs. files w f \<noteq> None)"
        using eq by auto
    qed
    show ?thesis
    proof (cases e2)
      case (Some err)
      with run cr None lp have res: "e = Some err" "w' = w2"
        by (simp_all add: mergeSegments_def Let_def)
      have "files w2 ?out = files w ?out" by (simp add: same2)
      moreover have "(\<exists>f \<in> set fs. files w f = None) \<or> (\<exists>t op. flt t op)" if "?tmp \<notin> set fs"
        using lps Some that exist [OF that] by auto
      moreover have "files w2 ?tmp = None" if "\<forall>t. \<not> flt t (OpRemove ?tmp)"
        using lps Some that by simp
      ultimately show ?thesis using res same2 t2 by auto
    next
      case ok: None
      have built: "files w2 ?tmp = Some (concat (map (\<lambda>f. the (files w f)) fs))"
        and present: "\<forall>f \<in> set fs. files w f \<noteq> None" if "?tmp \<notin> set fs"
      proof -
        have start: "files w1 ?tmp = Some []" by (simp add: f1)
        from lps ok that
        have "files w2 ?tmp = (case files w1 ?tmp of None \<Rightarrow> None
            | Some a \<Rightarrow> Some (a @ concat (map (\<lambda>f. the (files w1 f)) fs)))"
          and "\<forall>f \<in> set fs. files w1 f \<noteq> None"
          by blast+
        then show "files w2 ?tmp = Some (concat (map (\<lambda>f. the (files w f)) fs))"
          and "\<forall>f \<in> set fs. files w f \<noteq> None"
          unfolding names [OF that] start using exist [OF that] by simp_all
      qed
      obtain e3 w3 where fl: "bufio_Flush flt ?tmp [] w2 = (e3, w3)"
        by (cases "bufio_Flush flt ?tmp [] w2")
      note fls = bufio_Flush_spec [OF fl]
      show ?thesis
      proof (cases e3)
        case (Some err)
        with run cr None lp ok fl have res: "e = Some err" "w' = snd (os_Remove flt ?tmp w3)"
          by (simp_all add: mergeSegments_def Let_def)
        from fls Some have f3: "files w3 = files w2" and t3: "trace w3 = trace w2"
          and cause: "\<exists>t op. flt t op" by auto
        have "files w' ?out = files w ?out" using res f3 same2 by simp
        moreover have "files w' p = files w p" if "p \<noteq> ?tmp" for p
          using res f3 same2 that by simp
        moreover have "files w' ?tmp = None" if "\<forall>t. \<not> flt t (OpRemove ?tmp)"
          using res that by simp
        moreover have "trace w' = trace w" using res t3 t2 by simp
        ultimately show ?thesis using res cause by auto
      next
        case flushed: None
        with fls have f3: "files w3 = files w2" and t3: "trace w3 = trace w2"
          by (auto split: option.splits)
        obtain e4 w4 where rm: "removeExistingOutput flt ?tmp ?out w3 = (e4, w4)"
          by (cases "removeExistingOutput flt ?tmp ?out w3")
        note rms = removeExistingOutput_spec [OF rm ne]
        show ?thesis
        proof (cases e4)
          case (Some err)
          with run cr None lp ok fl flushed rm have res: "e = Some err" "w' = w4"
            by (simp_all add: mergeSegments_def Let_def)
          from rms Some f3 same2 have "files w4 ?out = files w ?out" by simp
          moreover have "files w4 p = files w p" if "p \<noteq> ?tmp \<and> p \<noteq> ?out" for p
            using rms f3 same2 that by simp
          moreover have "files w4 ?tmp = None" if "\<forall>t. \<not> flt t (OpRemove ?tmp)"
            using rms Some that by simp
          moreover have "trace w4 = trace w" using rms t3 t2 by simp
          moreover have "\<exists>t op. flt t op" using rms Some by simp
          ultimately show ?thesis using res by auto
        next
          case cleared: None
          with run cr None lp ok fl flushed rm
          have mv: "renameIntoPlace flt ?tmp ?out w4 = (e, w')"
            by (simp add: mergeSegments_def Let_def)
          note mvs = renameIntoPlace_spec [OF mv ne]
          have tmp4: "files w4 ?tmp = files w2 ?tmp" using rms cleared f3 by simp
          have out4: "files w4 ?out = None \<or> files w4 ?out = files w ?out"
            using rms cleared f3 same2 by auto
          have other: "files w' p = files w p" if "p \<noteq> ?tmp \<and> p \<noteq> ?out" for p
            using mvs rms f3 same2 that by simp
          have tr: "trace w' = trace w" using mvs rms t3 t2 by simp
          show ?thesis
          proof (cases e)
            case None
            have "files w' ?out = Some (concat (map (\<lambda>f. the (files w f)) fs))"
              and "\<forall>f \<in> set fs. files w f \<noteq> None" if "?tmp \<notin> set fs"
              using mvs None tmp4 built [OF that] present [OF that] by simp_all
            moreover have "files w' ?tmp = None" using mvs None by simp
            ultimately show ?thesis using None other tr by auto
          next
            case (Some err)
            have "files w' ?out = files w ?out \<or> files w' ?out = None"
              using mvs Some out4 by auto
            moreover have "(\<exists>f \<in> set fs. files w f = None) \<or> (\<exists>t op. flt t op)"
              if "?tmp \<notin> set fs"
              using mvs Some tmp4 built [OF that] by auto
            moreover have "files w' ?tmp = None" if "\<forall>t. \<not> flt t (OpRemove ?tmp)"
              using mvs Some that by simp
            ultimately show ?thesis using Some other tr by auto
          qed
        qed
      qed
    qed
  qed
qed

end
